theory Spec2Isabelle
  imports Complex_Main "HOL-Library.Log_Nat" "HOL-Library.Word"
begin

unbundle bit_operations_syntax

section \<open>Python values used by HolmarcMagnet.py\<close>

text \<open>
  The exceptions the modelled code can raise. A function that can raise returns
  \<open>error + 'a\<close>, with \<open>Inl\<close> for the exception.
\<close>

datatype error = ValueError | OverflowError | IndexError | AttributeError string

subsection \<open>Binary64 floats\<close>

text \<open>
  A finite Python float is represented by the rational number it denotes. Every float
  operation is the exact operation followed by \<open>fl_round\<close>, IEEE 754 round to nearest,
  ties to even, with 53 significant bits and the subnormal exponent floor \<open>-1074\<close>.
  A rounded result of magnitude \<open>float_inf\<close> or more stands for an infinity.
  The sign of zero is not represented: \<open>-0.0 < 0\<close> is false and \<open>int(-0.0)\<close> is
  \<open>0\<close>, so the code below treats both zeros alike.
\<close>

definition pow2 :: "int \<Rightarrow> rat" where
  "pow2 e = (if 0 \<le> e then 2 ^ nat e else 1 / 2 ^ nat (- e))"

definition floor_log2 :: "rat \<Rightarrow> int" where
  "floor_log2 x = (let (p, q) = quotient_of x; d = bitlen p - bitlen q
                   in if pow2 d \<le> x then d else d - 1)"

definition round_half_even :: "rat \<Rightarrow> int" where
  "round_half_even x = (let f = \<lfloor>x\<rfloor>; d = x - of_int f
     in if d < 1 / 2 then f else if 1 / 2 < d then f + 1 else if even f then f else f + 1)"

definition fl_round :: "rat \<Rightarrow> rat" where
  "fl_round x = (if x = 0 then 0
     else let e = max (floor_log2 \<bar>x\<bar> - 52) (- 1074)
          in of_int (round_half_even (x / pow2 e)) * pow2 e)"

definition float_inf :: rat where
  "float_inf = 2 ^ 1024"

text \<open>
  \<open>int(x)\<close> on a float: truncation towards zero; \<open>OverflowError\<close> on an infinity.
\<close>

definition py_int :: "rat \<Rightarrow> error + int" where
  "py_int x = (if float_inf \<le> \<bar>x\<bar> then Inl OverflowError
               else Inr (if 0 \<le> x then \<lfloor>x\<rfloor> else \<lceil>x\<rceil>))"

text \<open>\<open>round(x)\<close> on a finite float: the nearest integer, ties to even.\<close>

definition py_round :: "rat \<Rightarrow> int" where
  "py_round x = round_half_even x"

subsection \<open>Strings: \<open>hex\<close>, \<open>int(s, 16)\<close>, \<open>split\<close>, indexing\<close>

definition hex_digit :: "nat \<Rightarrow> char" where
  "hex_digit d = ''0123456789abcdef'' ! d"

fun hex_digits :: "nat \<Rightarrow> string" where
  "hex_digits n =
     (if n < 16 then [hex_digit n] else hex_digits (n div 16) @ [hex_digit (n mod 16)])"

declare hex_digits.simps [simp del]

text \<open>\<open>hex(n)\<close>: the prefix \<open>0x\<close>, then lower-case digits without leading zeros.\<close>

definition hex :: "int \<Rightarrow> string" where
  "hex n = (if n < 0 then ''-0x'' @ hex_digits (nat (- n)) else ''0x'' @ hex_digits (nat n))"

definition digit_value :: "char \<Rightarrow> nat option" where
  "digit_value c = map_of
     [(CHR ''0'', 0), (CHR ''1'', 1), (CHR ''2'', 2), (CHR ''3'', 3), (CHR ''4'', 4),
      (CHR ''5'', 5), (CHR ''6'', 6), (CHR ''7'', 7), (CHR ''8'', 8), (CHR ''9'', 9),
      (CHR ''a'', 10), (CHR ''b'', 11), (CHR ''c'', 12), (CHR ''d'', 13), (CHR ''e'', 14),
      (CHR ''f'', 15), (CHR ''A'', 10), (CHR ''B'', 11), (CHR ''C'', 12), (CHR ''D'', 13),
      (CHR ''E'', 14), (CHR ''F'', 15)] c"

fun digits_value :: "nat \<Rightarrow> string \<Rightarrow> nat option" where
  "digits_value acc [] = Some acc"
| "digits_value acc (c # cs) =
     (case digit_value c of None \<Rightarrow> None | Some v \<Rightarrow> digits_value (16 * acc + v) cs)"

text \<open>
  \<open>int(s, 16)\<close> on the strings that slices of \<open>hex\<close> output can be (characters among
  \<open>0-9 a-f x -\<close>): an optional sign, an optional \<open>0x\<close> prefix, then at least one
  hexadecimal digit and nothing else; \<open>ValueError\<close> otherwise. Python also accepts
  surrounding white space and single underscores between digits, which \<open>hex\<close> never
  produces.
\<close>

definition int_base16 :: "string \<Rightarrow> error + int" where
  "int_base16 s =
     (let neg = (take 1 s = ''-'');
          s1 = (if take 1 s = ''-'' \<or> take 1 s = ''+'' then drop 1 s else s);
          s2 = (if take 2 s1 = ''0x'' \<or> take 2 s1 = ''0X'' then drop 2 s1 else s1)
      in if s2 = [] then Inl ValueError
         else case digits_value 0 s2 of
                None \<Rightarrow> Inl ValueError
              | Some v \<Rightarrow> Inr (if neg then - int v else int v))"

text \<open>\<open>s.split(sep)\<close> for a one-character separator.\<close>

fun split_char :: "char \<Rightarrow> string \<Rightarrow> string list" where
  "split_char sep [] = [[]]"
| "split_char sep (c # cs) =
     (if c = sep then [] # split_char sep cs
      else (case split_char sep cs of p # ps \<Rightarrow> (c # p) # ps | [] \<Rightarrow> [[c]]))"

text \<open>\<open>xs[i]\<close> for a non-negative index: \<open>IndexError\<close> out of range.\<close>

definition index :: "'a list \<Rightarrow> nat \<Rightarrow> error + 'a" where
  "index xs i = (if i < length xs then Inr (xs ! i) else Inl IndexError)"

section \<open>The current encoder: \<open>controller.current_map\<close>\<close>

text \<open>
  The class attribute \<open>CURRENT_MAP\<close>: the captured payloads, keyed by the current in
  amps (one key is the string \<open>'test'\<close>).
\<close>

datatype map_key = Amps rat | Name string

definition CURRENT_MAP :: "(map_key \<times> int list) list" where
  "CURRENT_MAP =
     [(Amps (- 2), [0x02, 0x29, 0x00, 0x00]),
      (Amps (- 1), [0x00, 0xDE, 0x00, 0x00]),
      (Amps (- fl_round (1 / 10)), [0x00, 0x23, 0x00, 0x00]),
      (Amps 1, [0x00, 0xDE, 0x00, 0x01]),
      (Amps 4, [0x05, 0x13, 0x00, 0x01]),
      (Amps (- 4), [0x05, 0x13, 0x00, 0x00]),
      (Amps (- fl_round (39 / 10)), [0x04, 0xf0, 0x00, 0x00]),
      (Amps (- fl_round (38 / 10)), [0x04, 0xcd, 0x00, 0x00]),
      (Name ''test'', [0x05, 0x14, 0x00, 0x00])]"

text \<open>
  The factor \<open>(1299-35)/(4.0-0.1)\<close>: an integer difference, a float difference and a
  float division.
\<close>

definition SCALE :: rat where
  "SCALE = fl_round ((1299 - 35) / fl_round (fl_round 4 - fl_round (1 / 10)))"

text \<open>
  \<open>current_map(self, current_amps)\<close> for a finite float argument. \<open>mapped[-2:]\<close> is the
  last two characters, \<open>mapped.split('x')[1][:-2]\<close> the digits without the last two,
  and \<open>return_list[-1]\<close> is index 3 of the four-element list.
\<close>

definition current_map :: "rat \<Rightarrow> error + int list" where
  "current_map amps =
     (let pos = (if amps < 0 then 0 else 1);
          current_amps = (if amps < 0 then \<bar>amps\<bar> else amps)
      in case py_int (fl_round (SCALE * current_amps)) of
           Inl e \<Rightarrow> Inl e
         | Inr n \<Rightarrow>
             let mapped = hex n;
                 return_list = replicate 4 0
             in case int_base16 (drop (length mapped - 2) mapped) of
                  Inl e \<Rightarrow> Inl e
                | Inr low \<Rightarrow>
                    (case index (split_char CHR ''x'' mapped) 1 of
                       Inl e \<Rightarrow> Inl e
                     | Inr digits \<Rightarrow>
                         let zeroth = take (length digits - 2) digits
                         in if zeroth \<noteq> []
                            then (case int_base16 zeroth of
                                    Inl e \<Rightarrow> Inl e
                                  | Inr high \<Rightarrow> Inr (return_list[1 := low, 0 := high, 3 := pos]))
                            else Inr (return_list[1 := low, 3 := pos])))"

text \<open>
  The arithmetic reference of the specification, in its words: \<open>a = abs(amps)\<close>,
  \<open>sign = 0x01 if amps >= 0 else 0x00\<close>, \<open>counts = round(a * SCALE)\<close>,
  \<open>low = counts & 0xFF\<close>, \<open>high = counts >> 8\<close>, payload \<open>[high, low, 0x00, sign]\<close>.
\<close>

definition spec_encode :: "rat \<Rightarrow> int list" where
  "spec_encode amps =
     (let a = \<bar>amps\<bar>;
          sign = (if 0 \<le> amps then 0x01 else 0x00);
          counts = py_round (fl_round (a * SCALE));
          low = counts AND 0xFF;
          high = drop_bit 8 counts
      in [high, low, 0x00, sign])"

section \<open>The transport\<close>

text \<open>
  \<open>self.inst\<close> is an opened serial resource. What the device sends is a script
  \<open>rx\<close>: the outcome of the \<open>n\<close>-th call of \<open>read_bytes(1)\<close>, a byte or \<open>None\<close> for
  the timeout (\<open>VisaIOError\<close>). The script may go on for ever, so a polling loop need not
  end. \<open>pos\<close> counts the reads made, and \<open>trace\<close> records what the program did at the
  transport, oldest first. Writes to an open resource succeed. Console output is not
  modelled, except that \<open>Decoded\<close> records the run of the decoding block of
  \<open>stop_and_query_field\<close>, where the source prints the received bytes.
\<close>

type_synonym byte = "8 word"

datatype event = Write byte | Read "byte option" | Sleep rat | Decoded byte byte byte

record transport =
  rx :: "nat \<Rightarrow> byte option"
  pos :: nat
  trace :: "event list"

text \<open>The bytes written, in order.\<close>

fun writes :: "event list \<Rightarrow> byte list" where
  "writes [] = []"
| "writes (Write b # es) = b # writes es"
| "writes (e # es) = writes es"

text \<open>
  \<open>self.inst.write_raw(bytes([v]))\<close>: \<open>bytes\<close> raises \<open>ValueError\<close> unless
  \<open>0 <= v < 256\<close>.
\<close>

definition write_raw :: "int \<Rightarrow> transport \<Rightarrow> error + transport" where
  "write_raw v s =
     (if 0 \<le> v \<and> v < 256 then Inr (s\<lparr>trace := trace s @ [Write (word_of_int v)]\<rparr>)
      else Inl ValueError)"

text \<open>\<open>_read_one_byte\<close>: one read; the timeout is caught and gives \<open>None\<close>.\<close>

definition read_one_byte :: "transport \<Rightarrow> byte option \<times> transport" where
  "read_one_byte s =
     (rx s (pos s), s\<lparr>pos := Suc (pos s), trace := trace s @ [Read (rx s (pos s))]\<rparr>)"

text \<open>
  \<open>_poll_for_byte\<close>: \<open>while True\<close> around a read, left by \<open>return response\<close> on the
  expected byte and by \<open>return None\<close> on the timeout. The value \<open>None\<close> of the
  function is the loop that never ends.
\<close>

partial_function (option) poll_for_byte ::
    "byte \<Rightarrow> transport \<Rightarrow> (byte option \<times> transport) option" where
  "poll_for_byte expected_byte s =
     (case rx s (pos s) of
        None \<Rightarrow>
          Some (None, s\<lparr>pos := Suc (pos s), trace := trace s @ [Read None]\<rparr>)
      | Some response \<Rightarrow>
          if response = expected_byte
          then Some (Some response,
                 s\<lparr>pos := Suc (pos s), trace := trace s @ [Read (Some response)]\<rparr>)
          else poll_for_byte expected_byte
                 (s\<lparr>pos := Suc (pos s), trace := trace s @ [Read (Some response)]\<rparr>))"

declare poll_for_byte.simps [code]

section \<open>The handshake sequences\<close>

text \<open>
  A run has one of three outcomes: \<open>None\<close>, it never returns; \<open>Some (Inl e)\<close>, it
  raises \<open>e\<close>; \<open>Some (Inr v)\<close>, it returns \<open>v\<close>. The statements of a sequence run in
  order, and the first that raises or never returns ends the run.
\<close>

type_synonym 'a outcome = "(error + 'a) option"

fun statements :: "(transport \<Rightarrow> transport outcome) list \<Rightarrow> transport \<Rightarrow> transport outcome" where
  "statements [] s = Some (Inr s)"
| "statements (f # fs) s =
     (case f s of
        None \<Rightarrow> None
      | Some (Inl e) \<Rightarrow> Some (Inl e)
      | Some (Inr s') \<Rightarrow> statements fs s')"

text \<open>
  The four statement forms of the source: a write of a constant, a write of
  \<open>value_bytes[i]\<close>, \<open>self._read_one_byte()\<close> and \<open>self._poll_for_byte(b)\<close>, the last
  two with the result dropped.
\<close>

definition do_write :: "int \<Rightarrow> transport \<Rightarrow> transport outcome" where
  "do_write v s = Some (write_raw v s)"

definition do_write_item :: "int list \<Rightarrow> nat \<Rightarrow> transport \<Rightarrow> transport outcome" where
  "do_write_item value_bytes i s =
     (case index value_bytes i of Inl e \<Rightarrow> Some (Inl e) | Inr v \<Rightarrow> Some (write_raw v s))"

definition do_read :: "transport \<Rightarrow> transport outcome" where
  "do_read s = Some (Inr (snd (read_one_byte s)))"

definition do_poll :: "byte \<Rightarrow> transport \<Rightarrow> transport outcome" where
  "do_poll expected_byte s =
     (case poll_for_byte expected_byte s of None \<Rightarrow> None | Some (r, s') \<Rightarrow> Some (Inr s'))"

text \<open>\<open>_run_start_sequence(self, value_bytes)\<close>, statement by statement.\<close>

definition run_start_sequence :: "int list \<Rightarrow> transport \<Rightarrow> transport outcome" where
  "run_start_sequence value_bytes =
     statements
       [do_write 0x64, do_read,
        do_write 0x64, do_read,
        do_write 0x1E, do_poll 0x12,
        do_write 0x64, do_read,
        do_write 0x2C, do_read,
        do_write_item value_bytes 0, do_read,
        do_write_item value_bytes 1, do_read,
        do_write_item value_bytes 2, do_read,
        do_write_item value_bytes 3, do_read,
        do_write 0x00, do_poll 0x12]"


section \<open>The field decoder and \<open>stop_and_query_field\<close>\<close>

text \<open>
  What \<open>stop_and_query_field\<close> returns: the string \<open>"Query Failed"\<close> or the field in
  millitesla, a float.
\<close>

datatype reading = Query_Failed | Field rat

text \<open>
  The decoding block at the end of \<open>stop_and_query_field\<close>. The bytes are Python
  integers in \<open>0..255\<close>, so the shift does not wrap; \<open>raw_magnitude / 10.0\<close> is a float
  division. In \<open>stop_and_query_field\<close> each captured byte is echoed by
  \<open>write_raw(bytes([byte]))\<close>, which cannot raise for a byte that was read.
\<close>

definition decode_field :: "byte \<Rightarrow> byte \<Rightarrow> byte \<Rightarrow> reading" where
  "decode_field byte1 byte2 byte3 =
     (let raw_magnitude = push_bit 8 (uint byte1) OR uint byte2;
          scaled_magnitude = fl_round (of_int raw_magnitude / fl_round 10);
          final_value = (if byte3 = 0x01 then - scaled_magnitude else scaled_magnitude)
      in Field final_value)"

definition stop_and_query_field :: "transport \<Rightarrow> (reading \<times> transport) outcome" where
  "stop_and_query_field s =
     (case statements [do_write 0x64, do_read, do_write 0x2B, do_poll 0x12, do_write 0x0A] s of
        None \<Rightarrow> None
      | Some (Inl e) \<Rightarrow> Some (Inl e)
      | Some (Inr s1) \<Rightarrow>
          (case read_one_byte s1 of
             (None, s2) \<Rightarrow> Some (Inr (Query_Failed, s2))
           | (Some byte1, s2) \<Rightarrow>
               (case read_one_byte (s2\<lparr>trace := trace s2 @ [Write byte1]\<rparr>) of
                  (None, s3) \<Rightarrow> Some (Inr (Query_Failed, s3))
                | (Some byte2, s3) \<Rightarrow>
                    (case read_one_byte (s3\<lparr>trace := trace s3 @ [Write byte2]\<rparr>) of
                       (None, s4) \<Rightarrow> Some (Inr (Query_Failed, s4))
                     | (Some byte3, s4) \<Rightarrow>
                         (case statements
                                 [do_write 0x4E, do_read,
                                  do_write 0x00,
                                  do_write 0x64, do_read,
                                  do_write 0x82, do_poll 0x12]
                                 (s4\<lparr>trace := trace s4 @ [Write byte3]\<rparr>) of
                            None \<Rightarrow> None
                          | Some (Inl e) \<Rightarrow> Some (Inl e)
                          | Some (Inr s5) \<Rightarrow>
                              Some (Inr (decode_field byte1 byte2 byte3,
                                s5\<lparr>trace := trace s5 @ [Decoded byte1 byte2 byte3]\<rparr>)))))))"

section \<open>\<open>pulse\<close>\<close>


text \<open>
  A scripted transport: the listed read outcomes, then timeouts.
\<close>

definition scripted :: "byte option list \<Rightarrow> nat \<Rightarrow> byte option" where
  "scripted script n = (if n < length script then script ! n else None)"

text \<open>A device that sends the same byte for ever: no read times out.\<close>

definition constant_stream :: "byte \<Rightarrow> nat \<Rightarrow> byte option" where
  "constant_stream b n = Some b"





section \<open>The constructor\<close>

text \<open>
  The attributes of class \<open>controller\<close> are its methods and \<open>CURRENT_MAP\<close>; an
  instance also has the attributes \<open>__init__\<close> has assigned. An attribute lookup that
  finds neither raises \<open>AttributeError\<close>. \<open>pyvisa.ResourceManager()\<close> belongs to the
  library: its outcome is a parameter of \<open>controller_init\<close>.
\<close>

definition class_attributes :: "string list" where
  "class_attributes =
     [''CURRENT_MAP'', ''current_map'', ''__init__'', ''connect'', ''disconnect'',
      ''_read_one_byte'', ''_poll_for_byte'', ''_run_start_sequence'', ''set_current'',
      ''stop_and_query_field'', ''current_map_test'', ''pulse'']"

datatype attribute = Str string | Num int | PyNone | Resource_Manager | Class_Attribute string

type_synonym py_object = "(string \<times> attribute) list"

definition getattr :: "py_object \<Rightarrow> string \<Rightarrow> error + attribute" where
  "getattr self name =
     (case map_of self name of
        Some v \<Rightarrow> Inr v
      | None \<Rightarrow>
          if name \<in> set class_attributes then Inr (Class_Attribute name)
          else Inl (AttributeError name))"

text \<open>
  \<open>__init__(self, resource_name)\<close>: four assignments, the third after the resource
  manager is made, then the call \<open>self.coonect()\<close>, whose first step is the lookup of
  \<open>coonect\<close>. What a call would do after a lookup that succeeds is the parameter
  \<open>call\<close>.
\<close>

definition controller_init ::
    "(error + unit) \<Rightarrow> (attribute \<Rightarrow> py_object \<Rightarrow> error + py_object) \<Rightarrow> string \<Rightarrow> error + py_object" where
  "controller_init resource_manager call resource_name =
     (let self = [(''resource_name'', Str resource_name)];
          self = self @ [(''baud_rate'', Num 19200)];
          self = self @ [(''inst'', PyNone)]
      in (case resource_manager of
            Inl e \<Rightarrow> Inl e
          | Inr _ \<Rightarrow>
              (let self = self @ [(''rm'', Resource_Manager)]
               in (case getattr self ''coonect'' of
                     Inl e \<Rightarrow> Inl e
                   | Inr method \<Rightarrow> call method self))))"

text \<open>A call that returns the instance unchanged, to instantiate \<open>call\<close>.\<close>

definition returns_self :: "attribute \<Rightarrow> py_object \<Rightarrow> error + py_object" where
  "returns_self method self = Inr self"

section \<open>Evaluation of the float constants\<close>

lemma float_inf_value [code]:
  "float_inf = 179769313486231590772930519078902473361797697894230657273430081157732675805500963132708477322407536021120113879871393357658789768814416622492847430639474124377767893424865485276302219601246094119453082952085005768838150682342462881473913110540827237163350510684586298239947245938479716304835356329624224137216"
  by (simp add: float_inf_def)

text \<open>
  Two checks of \<open>fl_round\<close> against known doubles: \<open>0.1\<close> is
  \<open>3602879701896397 / 2 ^ 55\<close>, and \<open>4.0 - 0.1\<close> is the double \<open>3.9\<close>.
\<close>

lemma fl_round_tenth: "fl_round (1 / 10) = 3602879701896397 / 2 ^ 55"
  by code_simp

lemma fl_round_3_9: "fl_round (fl_round 4 - fl_round (1 / 10)) = fl_round (39 / 10)"
  by code_simp

lemma SCALE_value [code]: "SCALE = 2850836302582285 / 8796093022208"
  unfolding SCALE_def by code_simp

section \<open>Hexadecimal digits and their slices\<close>

lemma digit_value_hex_digit: "d < 16 \<Longrightarrow> digit_value (hex_digit d) = Some d"
proof -
  assume "d < 16"
  then have "d = 0 \<or> d = 1 \<or> d = 2 \<or> d = 3 \<or> d = 4 \<or> d = 5 \<or> d = 6 \<or> d = 7 \<or> d = 8
      \<or> d = 9 \<or> d = 10 \<or> d = 11 \<or> d = 12 \<or> d = 13 \<or> d = 14 \<or> d = 15" by arith
  then show ?thesis
    by (elim disjE; simp add: hex_digit_def digit_value_def)
qed

lemma hex_digit_in: "d < 16 \<Longrightarrow> hex_digit d \<in> set ''0123456789abcdef''"
  unfolding hex_digit_def by (rule nth_mem) simp

lemma digits_value_snoc:
  "digits_value acc (cs @ [c]) =
     (case digits_value acc cs of None \<Rightarrow> None
      | Some a \<Rightarrow> (case digit_value c of None \<Rightarrow> None | Some v \<Rightarrow> Some (16 * a + v)))"
  by (induction cs arbitrary: acc) (auto split: option.splits)

lemma digits_value_hex_digits: "digits_value 0 (hex_digits n) = Some n"
proof (induction n rule: hex_digits.induct)
  case (1 n)
  show ?case
  proof (cases "n < 16")
    case True
    then show ?thesis
      by (simp add: hex_digits.simps [of n] digit_value_hex_digit)
  next
    case False
    with 1 have "digits_value 0 (hex_digits (n div 16)) = Some (n div 16)" by simp
    with False show ?thesis
      by (simp add: hex_digits.simps [of n] digits_value_snoc digit_value_hex_digit)
  qed
qed

lemma hex_digits_set: "set (hex_digits n) \<subseteq> set ''0123456789abcdef''"
proof (induction n rule: hex_digits.induct)
  case (1 n)
  show ?case
  proof (cases "n < 16")
    case True
    then show ?thesis
      using hex_digit_in [of n] by (simp add: hex_digits.simps [of n])
  next
    case False
    with 1 have "set (hex_digits (n div 16)) \<subseteq> set ''0123456789abcdef''" by simp
    moreover have "hex_digit (n mod 16) \<in> set ''0123456789abcdef''"
      by (rule hex_digit_in) simp
    ultimately show ?thesis
      using False by (simp add: hex_digits.simps [of n])
  qed
qed

lemma hex_digits_nonempty: "hex_digits n \<noteq> []"
  by (simp add: hex_digits.simps [of n])

lemma x_notin_hex_digits: "CHR ''x'' \<notin> set (hex_digits m)"
  using hex_digits_set [of m] by auto

lemma split_char_absent: "sep \<notin> set s \<Longrightarrow> split_char sep s = [s]"
  by (induction s) auto

text \<open>On a non-empty string of hexadecimal digits \<open>int(s, 16)\<close> is the digits' value.\<close>

lemma int_base16_digits:
  assumes "set s \<subseteq> set ''0123456789abcdef''" "s \<noteq> []"
  shows "int_base16 s = (case digits_value 0 s of None \<Rightarrow> Inl ValueError | Some v \<Rightarrow> Inr (int v))"
proof -
  from assms obtain c cs where s: "s = c # cs" by (cases s) auto
  with assms have c: "take 1 s \<noteq> ''-''" "take 1 s \<noteq> ''+''" by auto
  have 2: "take 2 s \<noteq> ''0x''" "take 2 s \<noteq> ''0X''"
    using assms(1) s by (cases cs; auto)+
  have s1: "(if take 1 s = ''-'' \<or> take 1 s = ''+'' then drop 1 s else s) = s"
    using c by simp
  have s2: "(if take 2 s = ''0x'' \<or> take 2 s = ''0X'' then drop 2 s else s) = s"
    using 2 by simp
  show ?thesis
    unfolding int_base16_def Let_def s1 s2 using c(1) assms(2) by (simp split: option.splits)
qed

lemma int_base16_two_digits:
  assumes "a < 16" "b < 16"
  shows "int_base16 [hex_digit a, hex_digit b] = Inr (int (16 * a + b))"
proof -
  have "set [hex_digit a, hex_digit b] \<subseteq> set ''0123456789abcdef''"
    using hex_digit_in [OF assms(1)] hex_digit_in [OF assms(2)] by simp
  then have "int_base16 [hex_digit a, hex_digit b] =
      (case digits_value 0 [hex_digit a, hex_digit b] of
         None \<Rightarrow> Inl ValueError | Some v \<Rightarrow> Inr (int v))"
    by (rule int_base16_digits) simp
  then show ?thesis
    using assms by (simp add: digit_value_hex_digit)
qed

lemma int_base16_hex_digits: "int_base16 (hex_digits m) = Inr (int m)"
  using int_base16_digits [OF hex_digits_set hex_digits_nonempty, of m]
  by (simp add: digits_value_hex_digits)

text \<open>A string that starts with \<open>x\<close> is no number: the single-digit case of \<open>mapped[-2:]\<close>.\<close>

lemma int_base16_x: "int_base16 [CHR ''x'', c] = Inl ValueError"
  by (simp add: int_base16_def digit_value_def)

lemma hex_digits_last2:
  assumes "16 \<le> m"
  shows "hex_digits m = (if m < 256 then [] else hex_digits (m div 256))
           @ [hex_digit (m div 16 mod 16), hex_digit (m mod 16)]"
proof (cases "m < 256")
  case True
  with assms have "m div 16 < 16" "m div 16 mod 16 = m div 16" by auto
  with assms True show ?thesis
    by (simp add: hex_digits.simps [of m] hex_digits.simps [of "m div 16"])
next
  case False
  then have "\<not> m div 16 < 16" by auto
  moreover have "m div 16 div 16 = m div 256" by (simp add: div_mult2_eq [symmetric])
  ultimately show ?thesis
    using assms False
    by (simp add: hex_digits.simps [of m] hex_digits.simps [of "m div 16"])
qed

lemma hex_low_slice:
  assumes "16 \<le> n"
  shows "int_base16 (drop (length (hex n) - 2) (hex n)) = Inr (n mod 256)"
proof -
  define m where "m = nat n"
  with assms have m: "16 \<le> m" "n = int m" by auto
  have "drop (length (hex n) - 2) (hex n) = [hex_digit (m div 16 mod 16), hex_digit (m mod 16)]"
    using m by (simp add: hex_def hex_digits_last2 [OF m(1)])
  moreover have "16 * (m div 16 mod 16) + m mod 16 = m mod 256"
    using mod_mult2_eq [of m 16 16] by simp
  moreover have "int_base16 [hex_digit (m div 16 mod 16), hex_digit (m mod 16)]
      = Inr (int (16 * (m div 16 mod 16) + m mod 16))"
    by (rule int_base16_two_digits) simp_all
  ultimately show ?thesis
    by (simp only: m(2) zmod_int of_nat_numeral)
qed

lemma hex_low_slice_one_digit:
  assumes "0 \<le> n" "n < 16"
  shows "int_base16 (drop (length (hex n) - 2) (hex n)) = Inl ValueError"
proof -
  from assms have "nat n < 16" by simp
  then have "hex n = [CHR ''0'', CHR ''x'', hex_digit (nat n)]"
    using assms(1) by (simp add: hex_def hex_digits.simps [of "nat n"])
  then show ?thesis by (simp add: int_base16_x)
qed

lemma hex_split:
  assumes "0 \<le> n"
  shows "index (split_char CHR ''x'' (hex n)) (Suc 0) = Inr (hex_digits (nat n))"
  using assms by (simp add: hex_def index_def split_char_absent [OF x_notin_hex_digits])

lemma hex_high_slice:
  assumes "16 \<le> m"
  shows "take (length (hex_digits m) - 2) (hex_digits m)
           = (if m < 256 then [] else hex_digits (m div 256))"
  by (simp add: hex_digits_last2 [OF assms])

lemma int_and_255: "(k::int) AND 0xFF = k mod 256"
  using take_bit_eq_mask [of 8 k] by (simp add: take_bit_eq_mod mask_eq_exp_minus_1)

lemma abs_cases_amps: "(if amps < 0 then \<bar>amps\<bar> else amps) = \<bar>amps::rat\<bar>"
  by simp

lemma return_list_updates:
  "(replicate 4 (0::int))[Suc 0 := lo, 0 := hi, 3 := p] = [hi, lo, 0, p]"
  "(replicate 4 (0::int))[Suc 0 := lo, 3 := p] = [0, lo, 0, p]"
  by (simp_all add: numeral_eq_Suc)

section \<open>The encoder by its count\<close>

text \<open>
  With two hexadecimal digits or more, the string slices of \<open>current_map\<close> are the
  quotient and the remainder of the count by 256.
\<close>

lemma current_map_of_counts:
  assumes "py_int (fl_round (SCALE * \<bar>amps\<bar>)) = Inr counts" and "16 \<le> counts"
  shows "current_map amps =
           Inr [counts div 256, counts mod 256, 0, if 0 \<le> amps then 1 else 0]"
proof -
  define m where "m = nat counts"
  with assms(2) have m: "16 \<le> m" "counts = int m" by auto
  have low: "int_base16 (drop (length (hex counts) - 2) (hex counts)) = Inr (counts mod 256)"
    by (rule hex_low_slice [OF assms(2)])
  have digits: "index (split_char CHR ''x'' (hex counts)) (Suc 0) = Inr (hex_digits m)"
    using hex_split [of counts] assms(2) by (simp add: m_def)
  show ?thesis
  proof (cases "m < 256")
    case True
    then have "counts div 256 = 0" using m by simp
    with True show ?thesis
      unfolding current_map_def Let_def abs_cases_amps assms(1)
      by (simp add: low digits hex_high_slice [OF m(1)] not_le return_list_updates)
  next
    case False
    have "int_base16 (hex_digits (m div 256)) = Inr (counts div 256)"
      by (simp add: int_base16_hex_digits m(2) zdiv_int)
    with False show ?thesis
      unfolding current_map_def Let_def abs_cases_amps assms(1)
      by (simp add: low digits hex_high_slice [OF m(1)] not_le hex_digits_nonempty
          return_list_updates)
  qed
qed

text \<open>
  With one hexadecimal digit, \<open>mapped[-2:]\<close> is \<open>x\<close> and the digit, and
  \<open>int(mapped[-2:], 16)\<close> raises.
\<close>

lemma current_map_small_counts:
  assumes "py_int (fl_round (SCALE * \<bar>amps\<bar>)) = Inr counts" and "0 \<le> counts" and "counts < 16"
  shows "current_map amps = Inl ValueError"
  unfolding current_map_def Let_def abs_cases_amps assms(1)
  by (simp add: hex_low_slice_one_digit [OF assms(2,3)])

text \<open>Whenever \<open>current_map\<close> returns, the list has four entries and the last is the sign.\<close>

lemma current_map_sign:
  assumes "current_map amps = Inr payload"
  shows "length payload = 4 \<and> payload ! 3 = (if 0 \<le> amps then 1 else 0)"
  using assms unfolding current_map_def Let_def
  by (auto split: sum.splits if_splits simp: numeral_eq_Suc)

section \<open>The encoder on the calibration points\<close>

lemma counts_tenth: "py_int (fl_round (SCALE * \<bar>fl_round (1 / 10)\<bar>)) = Inr 32"
  by code_simp

lemma counts_four: "py_int (fl_round (SCALE * \<bar>4\<bar>)) = Inr 1296"
  by code_simp

lemma counts_minus_two: "py_int (fl_round (SCALE * \<bar>- 2\<bar>)) = Inr 648"
  by code_simp

text \<open>
  Claim C1 says that the encoder reproduces the captured payloads: low byte 35 (0x23) at
  0.1 A, \<open>[0x05, 0x13, 0x00, 0x01]\<close> at 4.0 A and \<open>[0x02, 0x29, 0x00, 0x00]\<close> at
  -2.0 A. The code does not: \<open>current_map\<close> multiplies by the slope between the two
  calibration points and leaves their offset out, so it returns low byte 32 (0x20) at
  0.1 A, \<open>[0x05, 0x10, 0x00, 0x01]\<close> at 4.0 A and \<open>[0x02, 0x88, 0x00, 0x00]\<close> at -2.0 A,
  while the table \<open>CURRENT_MAP\<close> of the same class holds the captured payloads.
\<close>

theorem current_map_fixtures:
  "current_map (fl_round (1 / 10)) = Inr [0x00, 0x20, 0x00, 0x01] \<and>
   current_map 4 = Inr [0x05, 0x10, 0x00, 0x01] \<and>
   current_map (- 2) = Inr [0x02, 0x88, 0x00, 0x00] \<and>
   map_of CURRENT_MAP (Amps 4) = Some [0x05, 0x13, 0x00, 0x01] \<and>
   map_of CURRENT_MAP (Amps (- 2)) = Some [0x02, 0x29, 0x00, 0x00]"
proof -
  have 0: "0 \<le> fl_round (1 / 10)" by code_simp
  have 1: "current_map (fl_round (1 / 10)) = Inr [0x00, 0x20, 0x00, 0x01]"
    using current_map_of_counts [OF counts_tenth] 0 by simp
  have 2: "current_map 4 = Inr [0x05, 0x10, 0x00, 0x01]"
    using current_map_of_counts [OF counts_four] by simp
  have 3: "current_map (- 2) = Inr [0x02, 0x88, 0x00, 0x00]"
    using current_map_of_counts [OF counts_minus_two] by simp
  have 4: "map_of CURRENT_MAP (Amps 4) = Some [0x05, 0x13, 0x00, 0x01]"
    by code_simp
  have 5: "map_of CURRENT_MAP (Amps (- 2)) = Some [0x02, 0x29, 0x00, 0x00]"
    by code_simp
  from 1 2 3 4 5 show ?thesis by blast
qed

section \<open>The encoder against the arithmetic reference\<close>

lemma counts_seven_hundredths: "py_int (fl_round (SCALE * \<bar>fl_round (7 / 100)\<bar>)) = Inr 22"
  by code_simp

text \<open>
  Claim C2, as stated, says that for every finite input the encoder returns the payload
  of the arithmetic reference, which rounds the count. It fails at 0.07 A: the product is
  about 22.69, the code truncates it to 22 and the reference rounds it to 23.
\<close>

theorem current_map_not_spec_encode:
  "current_map (fl_round (7 / 100)) = Inr [0x00, 0x16, 0x00, 0x01] \<and>
   spec_encode (fl_round (7 / 100)) = [0x00, 0x17, 0x00, 0x01]"
proof -
  have 0: "0 \<le> fl_round (7 / 100)" by code_simp
  have 1: "current_map (fl_round (7 / 100)) = Inr [0x00, 0x16, 0x00, 0x01]"
    using current_map_of_counts [OF counts_seven_hundredths] 0 by simp
  have 2: "spec_encode (fl_round (7 / 100)) = [0x00, 0x17, 0x00, 0x01]" by code_simp
  from 1 2 show ?thesis by blast
qed

text \<open>
  Claim C2, amended: with \<open>counts\<close> the float product \<open>abs(amps) * SCALE\<close> truncated
  towards zero (\<open>int\<close>, not \<open>round\<close>), and \<open>counts\<close> at least 16, the encoder returns
  \<open>[counts >> 8, counts & 0xFF, 0x00, sign]\<close> with \<open>sign = 0x01\<close> exactly when
  \<open>amps >= 0\<close>: the hex-string slicing is the arithmetic shift and mask.
\<close>

theorem current_map_arithmetic:
  assumes "py_int (fl_round (SCALE * \<bar>amps\<bar>)) = Inr counts" and "16 \<le> counts"
  shows "current_map amps =
           Inr [drop_bit 8 counts, counts AND 0xFF, 0x00, if 0 \<le> amps then 0x01 else 0x00]"
  using current_map_of_counts [OF assms] by (simp add: drop_bit_eq_div int_and_255)

theorem current_map_arithmetic_witness:
  "current_map (- 1) = Inr [0x01, 0x44, 0x00, 0x00]"
proof -
  have h: "py_int (fl_round (SCALE * \<bar>- 1\<bar>)) = Inr 324" by code_simp
  show ?thesis
    using current_map_arithmetic [OF h] by simp
qed

section \<open>Inputs on which the encoder raises\<close>

text \<open>
  Claim C3 says that the encoder returns a payload for every finite input, 0.0 and small
  magnitudes included. The code raises \<open>ValueError\<close> at 0.0 and at 0.01 A: the count has
  one hexadecimal digit, so \<open>mapped[-2:]\<close> is \<open>x0\<close> or \<open>x3\<close>, which \<open>int(..., 16)\<close>
  rejects.
\<close>

theorem current_map_raises_at_zero:
  "current_map 0 = Inl ValueError \<and> current_map (fl_round (1 / 100)) = Inl ValueError"
proof -
  have a: "py_int (fl_round (SCALE * \<bar>0\<bar>)) = Inr 0" by code_simp
  have b: "py_int (fl_round (SCALE * \<bar>fl_round (1 / 100)\<bar>)) = Inr 3" by code_simp
  have 1: "current_map 0 = Inl ValueError"
    by (rule current_map_small_counts [OF a]) simp_all
  have 2: "current_map (fl_round (1 / 100)) = Inl ValueError"
    by (rule current_map_small_counts [OF b]) simp_all
  from 1 2 show ?thesis by blast
qed

text \<open>
  Claim C8 says that for every input in \<open>[-4.0, 4.0]\<close> the last byte of the payload is
  \<open>0x01\<close> exactly when the input is non-negative. At -0.01 A, inside the range, the code
  returns no payload: it raises \<open>ValueError\<close>, by the same one-digit slice as in C3.
  (Where a payload is returned its last entry is the sign: \<open>current_map_sign\<close>.)
\<close>

theorem current_map_no_sign_for_small_negative:
  "- 4 \<le> - fl_round (1 / 100) \<and> - fl_round (1 / 100) \<le> 4 \<and>
   current_map (- fl_round (1 / 100)) = Inl ValueError"
proof -
  have 1: "- 4 \<le> - fl_round (1 / 100)" by code_simp
  have 2: "- fl_round (1 / 100) \<le> 4" by code_simp
  have c: "py_int (fl_round (SCALE * \<bar>- fl_round (1 / 100)\<bar>)) = Inr 3" by code_simp
  have 3: "current_map (- fl_round (1 / 100)) = Inl ValueError"
    by (rule current_map_small_counts [OF c]) simp_all
  from 1 2 3 show ?thesis by blast
qed

section \<open>The polling loop\<close>

text \<open>
  The loop reads past every byte that is not the expected one and returns at the first
  expected byte or timeout; it writes nothing.
\<close>

lemma poll_for_byte_reads:
  assumes "\<forall>j<length skipped. rx s (pos s + j) = Some (skipped ! j)"
    and "expected \<notin> set skipped"
    and "rx s (pos s + length skipped) = r"
    and "r = None \<or> r = Some expected"
  shows "poll_for_byte expected s =
    Some (r, s\<lparr>pos := pos s + length skipped + 1,
                trace := trace s @ map (Read \<circ> Some) skipped @ [Read r]\<rparr>)"
  using assms
proof (induction skipped arbitrary: s)
  case Nil
  then show ?case
    by (auto simp: poll_for_byte.simps [of expected s])
next
  case (Cons b bs)
  let ?s' = "s\<lparr>pos := Suc (pos s), trace := trace s @ [Read (Some b)]\<rparr>"
  from Cons.prems(1) have b: "rx s (pos s) = Some b" by force
  from Cons.prems(2) have ne: "b \<noteq> expected" by auto
  have step: "poll_for_byte expected s = poll_for_byte expected ?s'"
    using b ne by (simp add: poll_for_byte.simps [of expected s])
  have 1: "\<forall>j<length bs. rx ?s' (pos ?s' + j) = Some (bs ! j)"
  proof (intro allI impI)
    fix j assume "j < length bs"
    then have "rx s (pos s + Suc j) = Some ((b # bs) ! Suc j)"
      using Cons.prems(1) by (metis Suc_less_eq length_Cons)
    then show "rx ?s' (pos ?s' + j) = Some (bs ! j)" by simp
  qed
  have 2: "expected \<notin> set bs" using Cons.prems(2) by simp
  have 3: "rx ?s' (pos ?s' + length bs) = r" using Cons.prems(3) by simp
  show ?case
    unfolding step Cons.IH [OF 1 2 3 Cons.prems(4)] by simp
qed

text \<open>
  A script with an expected byte or a timeout ahead starts with bytes that are not the
  expected one, followed by the expected byte or a timeout.
\<close>

lemma script_prefix:
  assumes "\<exists>k. f (n + k) = None \<or> f (n + k) = Some (e :: byte)"
  shows "\<exists>skipped r. (\<forall>j<length skipped. f (n + j) = Some (skipped ! j)) \<and>
    e \<notin> set skipped \<and> f (n + length skipped) = r \<and> (r = None \<or> r = Some e)"
proof -
  define P where "P k \<longleftrightarrow> f (n + k) = None \<or> f (n + k) = Some e" for k
  define k where "k = (LEAST k. P k)"
  from assms have ex: "\<exists>k. P k" by (simp add: P_def)
  then have Pk: "P k" unfolding k_def by (rule LeastI_ex)
  have before: "\<not> P j" if "j < k" for j
    using that not_less_Least unfolding k_def by blast
  define skipped where "skipped = map (\<lambda>j. the (f (n + j))) [0..<k]"
  have len: "length skipped = k" by (simp add: skipped_def)
  have 1: "\<forall>j<length skipped. f (n + j) = Some (skipped ! j)"
    using before by (auto simp: skipped_def P_def)
  have 2: "e \<notin> set skipped"
    using before by (fastforce simp: skipped_def P_def)
  have 4: "f (n + length skipped) = None \<or> f (n + length skipped) = Some e"
    using Pk by (simp add: P_def len)
  from 1 2 4 show ?thesis by blast
qed

text \<open>The loop ends as soon as the script holds an expected byte or a timeout ahead.\<close>

lemma poll_for_byte_total:
  assumes "\<exists>k. rx s (pos s + k) = None \<or> rx s (pos s + k) = Some expected"
  shows "\<exists>skipped r. expected \<notin> set skipped \<and> (r = None \<or> r = Some expected) \<and>
    poll_for_byte expected s =
      Some (r, s\<lparr>pos := pos s + length skipped + 1,
                  trace := trace s @ map (Read \<circ> Some) skipped @ [Read r]\<rparr>)"
proof -
  from script_prefix [OF assms] obtain skipped r where
    1: "\<forall>j<length skipped. rx s (pos s + j) = Some (skipped ! j)" and
    2: "expected \<notin> set skipped" and
    3: "rx s (pos s + length skipped) = r" and
    4: "r = None \<or> r = Some expected"
    by blast
  from poll_for_byte_reads [OF 1 2 3 4] 2 4 show ?thesis by blast
qed

text \<open>
  And only then: on a script that sends other bytes for ever, the loop returns nothing.
\<close>

lemma poll_for_byte_returns:
  assumes "poll_for_byte expected s = Some res"
  shows "\<exists>k. rx s (pos s + k) = None \<or> rx s (pos s + k) = Some expected"
proof (rule poll_for_byte.raw_induct
    [where P = "\<lambda>e s r. \<exists>k. rx s (pos s + k) = None \<or> rx s (pos s + k) = Some e",
      OF _ assms], goal_cases)
  case (1 f e s r)
  show ?case
  proof (cases "rx s (pos s)")
    case None
    then have "rx s (pos s + 0) = None" by simp
    then show ?thesis by blast
  next
    case (Some response)
    show ?thesis
    proof (cases "response = e")
      case True
      with Some have "rx s (pos s + 0) = Some e" by simp
      then show ?thesis by blast
    next
      case False
      let ?s' = "s\<lparr>pos := Suc (pos s), trace := trace s @ [Read (Some response)]\<rparr>"
      have "f e ?s' = Some r" using 1(2) Some False by simp
      then have "\<exists>k. rx ?s' (pos ?s' + k) = None \<or> rx ?s' (pos ?s' + k) = Some e"
        by (rule 1(1))
      then obtain k where
        "rx s (Suc (pos s + k)) = None \<or> rx s (Suc (pos s + k)) = Some e"
        by auto
      then have "rx s (pos s + Suc k) = None \<or> rx s (pos s + Suc k) = Some e" by simp
      then show ?thesis by blast
    qed
  qed
qed

lemma writes_append: "writes (es @ fs) = writes es @ writes fs"
  by (induction es rule: writes.induct) auto

lemma writes_skipped: "writes (map (Read \<circ> Some) skipped) = []"
  by (induction skipped) auto

section \<open>Statements, one at a time\<close>

lemma statements_write:
  "0 \<le> v \<Longrightarrow> v < 256 \<Longrightarrow>
    statements (do_write v # fs) s = statements fs (s\<lparr>trace := trace s @ [Write (word_of_int v)]\<rparr>)"
  by (simp add: do_write_def write_raw_def)

lemma statements_write_item:
  "i < length xs \<Longrightarrow> 0 \<le> xs ! i \<Longrightarrow> xs ! i < 256 \<Longrightarrow>
    statements (do_write_item xs i # fs) s =
      statements fs (s\<lparr>trace := trace s @ [Write (word_of_int (xs ! i))]\<rparr>)"
  by (simp add: do_write_item_def index_def write_raw_def)

lemma statements_read:
  "statements (do_read # fs) s =
     statements fs (s\<lparr>pos := Suc (pos s), trace := trace s @ [Read (rx s (pos s))]\<rparr>)"
  by (simp add: do_read_def read_one_byte_def)

lemma statements_poll_reads:
  assumes "\<forall>j<length skipped. rx s (pos s + j) = Some (skipped ! j)"
    and "expected \<notin> set skipped"
    and "rx s (pos s + length skipped) = r"
    and "r = None \<or> r = Some expected"
  shows "statements (do_poll expected # fs) s =
    statements fs (s\<lparr>pos := pos s + length skipped + 1,
                     trace := trace s @ map (Read \<circ> Some) skipped @ [Read r]\<rparr>)"
  by (simp add: do_poll_def poll_for_byte_reads [OF assms])

lemma statements_poll_unfold:
  "statements (do_poll e # fs) s =
     (case poll_for_byte e s of None \<Rightarrow> None | Some (r, s') \<Rightarrow> statements fs s')"
  by (simp add: do_poll_def split: option.splits)

section \<open>The POLL step\<close>

text \<open>
  Claim C9: a POLL step writes its command byte once and then reads, discarding the
  bytes that differ from the expected one, until the expected byte or a timeout; with the
  expected byte first (\<open>skipped = []\<close>) it makes exactly one read; after a timeout it
  returns like after a match, and the statements that follow run. Here \<open>skipped\<close> are the
  bytes read before the loop ends, \<open>r\<close> is the last read, and \<open>rest\<close> the statements after
  the step.
\<close>

theorem poll_step:
  assumes "0 \<le> b" and "b < 256"
    and "\<forall>j<length skipped. rx s (pos s + j) = Some (skipped ! j)"
    and "expected \<notin> set skipped"
    and "rx s (pos s + length skipped) = r"
    and "r = None \<or> r = Some expected"
  shows "poll_for_byte expected s =
      Some (r, s\<lparr>pos := pos s + length skipped + 1,
                  trace := trace s @ map (Read \<circ> Some) skipped @ [Read r]\<rparr>) \<and>
    statements (do_write b # do_poll expected # rest) s =
      statements rest
        (s\<lparr>pos := pos s + length skipped + 1,
           trace := trace s @ [Write (word_of_int b)] @ map (Read \<circ> Some) skipped @ [Read r]\<rparr>)"
proof
  show "poll_for_byte expected s =
      Some (r, s\<lparr>pos := pos s + length skipped + 1,
                  trace := trace s @ map (Read \<circ> Some) skipped @ [Read r]\<rparr>)"
    using assms(3-6) by (rule poll_for_byte_reads)
next
  let ?s1 = "s\<lparr>trace := trace s @ [Write (word_of_int b)]\<rparr>"
  have 1: "\<forall>j<length skipped. rx ?s1 (pos ?s1 + j) = Some (skipped ! j)"
    using assms(3) by simp
  have 3: "rx ?s1 (pos ?s1 + length skipped) = r"
    using assms(5) by simp
  show "statements (do_write b # do_poll expected # rest) s =
      statements rest
        (s\<lparr>pos := pos s + length skipped + 1,
           trace := trace s @ [Write (word_of_int b)] @ map (Read \<circ> Some) skipped @ [Read r]\<rparr>)"
    unfolding statements_write [OF assms(1,2)]
      statements_poll_reads [OF 1 assms(4) 3 assms(6)]
    by simp
qed

theorem poll_step_witness:
  "statements [do_write 0x1E, do_poll 0x12]
      \<lparr>rx = scripted [Some 0x07, Some 0x12], pos = 0, trace = []\<rparr> =
    Some (Inr \<lparr>rx = scripted [Some 0x07, Some 0x12], pos = 2,
                 trace = [Write 0x1E, Read (Some 0x07), Read (Some 0x12)]\<rparr>)"
proof -
  let ?s = "\<lparr>rx = scripted [Some 0x07, Some 0x12], pos = 0, trace = []\<rparr>"
  have 3: "\<forall>j<length [0x07 :: byte]. rx ?s (pos ?s + j) = Some ([0x07] ! j)"
    by (simp add: scripted_def)
  have 4: "(0x12 :: byte) \<notin> set [0x07]" by simp
  have 5: "rx ?s (pos ?s + length [0x07 :: byte]) = Some 0x12"
    by (simp add: scripted_def)
  show ?thesis
    using poll_step [of "0x1E" "[0x07]" ?s "0x12" "Some 0x12" "[]", OF _ _ 3 4 5]
    by simp
qed

section \<open>The start sequence\<close>

lemma run_start_sequence_run:
  assumes len: "length payload = 4"
    and bytes: "\<forall>v \<in> set payload. 0 \<le> v \<and> v < 256"
    and skip3: "\<forall>j<length skipped3. rx s (pos s + 2 + j) = Some (skipped3 ! j)"
    and no3: "0x12 \<notin> set skipped3"
    and last3: "rx s (pos s + 2 + length skipped3) = r3"
    and end3: "r3 = None \<or> r3 = Some 0x12"
    and q: "q = pos s + length skipped3 + 3"
    and skip10: "\<forall>j<length skipped10. rx s (q + 6 + j) = Some (skipped10 ! j)"
    and no10: "0x12 \<notin> set skipped10"
    and last10: "rx s (q + 6 + length skipped10) = r10"
    and end10: "r10 = None \<or> r10 = Some 0x12"
  shows "run_start_sequence payload s =
    Some (Inr (s\<lparr>pos := q + length skipped10 + 7,
      trace := trace s
        @ [Write 0x64, Read (rx s (pos s)), Write 0x64, Read (rx s (pos s + 1)), Write 0x1E]
        @ map (Read \<circ> Some) skipped3
        @ [Read r3,
           Write 0x64, Read (rx s q), Write 0x2C, Read (rx s (q + 1)),
           Write (word_of_int (payload ! 0)), Read (rx s (q + 2)),
           Write (word_of_int (payload ! 1)), Read (rx s (q + 3)),
           Write (word_of_int (payload ! 2)), Read (rx s (q + 4)),
           Write (word_of_int (payload ! 3)), Read (rx s (q + 5)),
           Write 0x00]
        @ map (Read \<circ> Some) skipped10 @ [Read r10]\<rparr>))"
proof -
  have item: "0 \<le> payload ! i \<and> payload ! i < 256" if "i < 4" for i
    using bytes len that by (metis nth_mem)
  note items = item [of 0, simplified] item [of 1, simplified] item [of 2, simplified]
    item [of 3, simplified]
  let ?tail = "[do_write 0x64, do_read, do_write 0x2C, do_read,
        do_write_item payload 0, do_read, do_write_item payload 1, do_read,
        do_write_item payload 2, do_read, do_write_item payload 3, do_read,
        do_write 0x00, do_poll 0x12]"
  define s5 where "s5 = s\<lparr>pos := Suc (Suc (pos s)),
    trace := trace s @ [Write 0x64, Read (rx s (pos s)), Write 0x64, Read (rx s (Suc (pos s))),
      Write 0x1E]\<rparr>"
  have run5: "run_start_sequence payload s = statements (do_poll 0x12 # ?tail) s5"
    by (simp add: run_start_sequence_def statements_write statements_read s5_def
        del: statements.simps)
  have a1: "\<forall>j<length skipped3. rx s5 (pos s5 + j) = Some (skipped3 ! j)"
    using skip3 by (simp add: s5_def)
  have a3: "rx s5 (pos s5 + length skipped3) = r3"
    using last3 by (simp add: s5_def)
  define s6 where "s6 = s\<lparr>pos := q,
    trace := trace s5 @ map (Read \<circ> Some) skipped3 @ [Read r3]\<rparr>"
  have run6: "statements (do_poll 0x12 # ?tail) s5 = statements ?tail s6"
    unfolding statements_poll_reads [OF a1 no3 a3 end3]
    by (simp add: s5_def s6_def q eval_nat_numeral del: statements.simps)
  define s19 where "s19 = s\<lparr>pos := Suc (Suc (Suc (Suc (Suc (Suc q))))),
    trace := trace s6 @ [Write 0x64, Read (rx s q), Write 0x2C, Read (rx s (Suc q)),
         Write (word_of_int (payload ! 0)), Read (rx s (Suc (Suc q))),
         Write (word_of_int (payload ! 1)), Read (rx s (Suc (Suc (Suc q)))),
         Write (word_of_int (payload ! 2)), Read (rx s (Suc (Suc (Suc (Suc q))))),
         Write (word_of_int (payload ! 3)), Read (rx s (Suc (Suc (Suc (Suc (Suc q)))))),
         Write 0x00]\<rparr>"
  have run19: "statements ?tail s6 = statements [do_poll 0x12] s19"
    using items len
    by (simp add: statements_write statements_read statements_write_item s6_def s19_def
        del: statements.simps)
  have b1: "\<forall>j<length skipped10. rx s19 (pos s19 + j) = Some (skipped10 ! j)"
    using skip10 by (simp add: s19_def eval_nat_numeral)
  have b3: "rx s19 (pos s19 + length skipped10) = r10"
    using last10 by (simp add: s19_def eval_nat_numeral)
  have run20: "statements [do_poll 0x12] s19 =
      Some (Inr (s19\<lparr>pos := pos s19 + length skipped10 + 1,
        trace := trace s19 @ map (Read \<circ> Some) skipped10 @ [Read r10]\<rparr>))"
    unfolding statements_poll_reads [OF b1 no10 b3 end10] by simp
  show ?thesis
    unfolding run5 run6 run19 run20
    by (simp add: s19_def s6_def s5_def eval_nat_numeral)
qed

text \<open>
  The hypotheses on the script hold for some \<open>skipped3\<close>, \<open>r3\<close>, \<open>skipped10\<close> and \<open>r10\<close>
  as soon as an expected byte or a timeout lies ahead of every point of the script.
\<close>

lemma run_start_sequence_total:
  assumes len: "length payload = 4"
    and bytes: "\<forall>v \<in> set payload. 0 \<le> v \<and> v < 256"
    and live: "\<forall>n. \<exists>k. rx s (n + k) = None \<or> rx s (n + k) = Some 0x12"
  shows "\<exists>s'. run_start_sequence payload s = Some (Inr s')"
proof -
  from script_prefix [OF live [rule_format, of "pos s + 2"]] obtain skipped3 r3 where
    3: "\<forall>j<length skipped3. rx s (pos s + 2 + j) = Some (skipped3 ! j)"
      "0x12 \<notin> set skipped3" "rx s (pos s + 2 + length skipped3) = r3"
      "r3 = None \<or> r3 = Some 0x12"
    by blast
  define q where "q = pos s + length skipped3 + 3"
  from script_prefix [OF live [rule_format, of "q + 6"]] obtain skipped10 r10 where
    10: "\<forall>j<length skipped10. rx s (q + 6 + j) = Some (skipped10 ! j)"
      "0x12 \<notin> set skipped10" "rx s (q + 6 + length skipped10) = r10"
      "r10 = None \<or> r10 = Some 0x12"
    by blast
  show ?thesis
    unfolding run_start_sequence_run [OF len bytes 3 q_def 10] by blast
qed

lemma poll_never_returns: "poll_for_byte 0x12 (s\<lparr>rx := constant_stream 0x00\<rparr>) = None"
proof (cases "poll_for_byte 0x12 (s\<lparr>rx := constant_stream 0x00\<rparr>)")
  case None
  then show ?thesis .
next
  case (Some res)
  from poll_for_byte_returns [OF this] show ?thesis
    by (simp add: constant_stream_def)
qed

text \<open>
  Claim C4, as stated, says that the start sequence writes the ten bytes. On a device
  that sends \<open>0x00\<close> for ever it does not: after \<open>0x64, 0x64, 0x1E\<close> the polling loop
  never sees \<open>0x12\<close> nor a timeout, and the sequence never returns.
\<close>

theorem run_start_sequence_never_returns:
  "statements [do_write 0x64, do_read, do_write 0x64, do_read, do_write 0x1E]
      \<lparr>rx = constant_stream 0x00, pos = 0, trace = []\<rparr> =
     Some (Inr \<lparr>rx = constant_stream 0x00, pos = 2,
       trace = [Write 0x64, Read (Some 0x00), Write 0x64, Read (Some 0x00), Write 0x1E]\<rparr>) \<and>
   poll_for_byte 0x12 \<lparr>rx = constant_stream 0x00, pos = 2,
       trace = [Write 0x64, Read (Some 0x00), Write 0x64, Read (Some 0x00), Write 0x1E]\<rparr> = None \<and>
   run_start_sequence [0x05, 0x10, 0x00, 0x01] \<lparr>rx = constant_stream 0x00, pos = 0, trace = []\<rparr>
     = None"
proof -
  let ?s = "\<lparr>rx = constant_stream 0x00, pos = 0, trace = []\<rparr>"
  let ?s5 = "\<lparr>rx = constant_stream 0x00, pos = 2,
       trace = [Write 0x64, Read (Some 0x00), Write 0x64, Read (Some 0x00), Write 0x1E]\<rparr>"
  have 1: "statements [do_write 0x64, do_read, do_write 0x64, do_read, do_write 0x1E] ?s
      = Some (Inr ?s5)"
    by (simp add: statements_write statements_read constant_stream_def
        del: statements.simps(2))
  have 2: "poll_for_byte 0x12 ?s5 = None"
    using poll_never_returns [of ?s5] by simp
  have tail: "statements (do_poll 0x12 # fs) ?s5 = None" for fs
    by (simp add: statements_poll_unfold 2 del: statements.simps(2))
  have "run_start_sequence [0x05, 0x10, 0x00, 0x01] ?s =
      statements
        [do_poll 0x12, do_write 0x64, do_read, do_write 0x2C, do_read,
         do_write_item [0x05, 0x10, 0x00, 0x01] 0, do_read,
         do_write_item [0x05, 0x10, 0x00, 0x01] 1, do_read,
         do_write_item [0x05, 0x10, 0x00, 0x01] 2, do_read,
         do_write_item [0x05, 0x10, 0x00, 0x01] 3, do_read,
         do_write 0x00, do_poll 0x12] ?s5"
    by (simp add: run_start_sequence_def statements_write statements_read
        constant_stream_def eval_nat_numeral del: statements.simps)
  then have 3: "run_start_sequence [0x05, 0x10, 0x00, 0x01] ?s = None"
    by (simp only: tail)
  from 1 2 3 show ?thesis by blast
qed

text \<open>
  Claim C4, amended: when both polling loops end, the start sequence writes exactly the
  ten bytes \<open>0x64, 0x64, 0x1E, 0x64, 0x2C\<close>, the four payload bytes and \<open>0x00\<close>, in that
  order, each write followed by exactly one read (ACK) or, after \<open>0x1E\<close> and after the
  final \<open>0x00\<close>, by the reads of its polling loop up to the first \<open>0x12\<close> or timeout
  (POLL). Here the payload is four bytes; the first poll reads \<open>skipped3\<close> and then
  \<open>r3\<close>, the second \<open>skipped10\<close> and then \<open>r10\<close>; \<open>q\<close> is the number of the read after
  the first poll; \<open>s'\<close> is the transport afterwards, every read of its trace being the
  next outcome of the script.
\<close>

theorem run_start_sequence_trace:
  assumes "length payload = 4"
    and "\<forall>v \<in> set payload. 0 \<le> v \<and> v < 256"
    and "\<forall>j<length skipped3. rx s (pos s + 2 + j) = Some (skipped3 ! j)"
    and "0x12 \<notin> set skipped3"
    and "rx s (pos s + 2 + length skipped3) = r3"
    and "r3 = None \<or> r3 = Some 0x12"
    and "q = pos s + length skipped3 + 3"
    and "\<forall>j<length skipped10. rx s (q + 6 + j) = Some (skipped10 ! j)"
    and "0x12 \<notin> set skipped10"
    and "rx s (q + 6 + length skipped10) = r10"
    and "r10 = None \<or> r10 = Some 0x12"
    and "s' = s\<lparr>pos := q + length skipped10 + 7,
      trace := trace s
        @ [Write 0x64, Read (rx s (pos s)), Write 0x64, Read (rx s (pos s + 1)), Write 0x1E]
        @ map (Read \<circ> Some) skipped3
        @ [Read r3,
           Write 0x64, Read (rx s q), Write 0x2C, Read (rx s (q + 1)),
           Write (word_of_int (payload ! 0)), Read (rx s (q + 2)),
           Write (word_of_int (payload ! 1)), Read (rx s (q + 3)),
           Write (word_of_int (payload ! 2)), Read (rx s (q + 4)),
           Write (word_of_int (payload ! 3)), Read (rx s (q + 5)),
           Write 0x00]
        @ map (Read \<circ> Some) skipped10 @ [Read r10]\<rparr>"
  shows "run_start_sequence payload s = Some (Inr s') \<and>
    writes (trace s') = writes (trace s)
      @ [0x64, 0x64, 0x1E, 0x64, 0x2C,
         word_of_int (payload ! 0), word_of_int (payload ! 1),
         word_of_int (payload ! 2), word_of_int (payload ! 3), 0x00]"
proof
  show "run_start_sequence payload s = Some (Inr s')"
    unfolding assms(12) by (rule run_start_sequence_run [OF assms(1-11)])
  show "writes (trace s') = writes (trace s)
      @ [0x64, 0x64, 0x1E, 0x64, 0x2C,
         word_of_int (payload ! 0), word_of_int (payload ! 1),
         word_of_int (payload ! 2), word_of_int (payload ! 3), 0x00]"
    unfolding assms(12) by (simp add: writes_append writes_skipped)
qed

theorem run_start_sequence_trace_witness:
  "run_start_sequence [0x05, 0x10, 0x00, 0x01]
      \<lparr>rx = scripted [Some 0x01, Some 0x02, Some 0x07, Some 0x12, Some 0x03, Some 0x04,
              Some 0x05, Some 0x06, Some 0x08, Some 0x09],
        pos = 0, trace = []\<rparr> =
    Some (Inr
      \<lparr>rx = scripted [Some 0x01, Some 0x02, Some 0x07, Some 0x12, Some 0x03, Some 0x04,
              Some 0x05, Some 0x06, Some 0x08, Some 0x09],
        pos = 11,
        trace = [Write 0x64, Read (Some 0x01), Write 0x64, Read (Some 0x02), Write 0x1E,
          Read (Some 0x07), Read (Some 0x12),
          Write 0x64, Read (Some 0x03), Write 0x2C, Read (Some 0x04),
          Write 0x05, Read (Some 0x05), Write 0x10, Read (Some 0x06),
          Write 0x00, Read (Some 0x08), Write 0x01, Read (Some 0x09),
          Write 0x00, Read None]\<rparr>)"
proof -
  let ?script = "[Some 0x01, Some 0x02, Some 0x07, Some 0x12, Some 0x03, Some 0x04,
              Some 0x05, Some 0x06, Some 0x08, Some 0x09] :: byte option list"
  let ?s = "\<lparr>rx = scripted ?script, pos = 0, trace = []\<rparr>"
  have len: "length [0x05, 0x10, 0x00, 0x01 :: int] = 4" by simp
  have bytes: "\<forall>v \<in> set [0x05, 0x10, 0x00, 0x01 :: int]. 0 \<le> v \<and> v < 256" by simp
  have 3: "\<forall>j<length [0x07 :: byte]. rx ?s (pos ?s + 2 + j) = Some ([0x07] ! j)"
    by (simp add: scripted_def)
  have 4: "(0x12 :: byte) \<notin> set [0x07]" by simp
  have 5: "rx ?s (pos ?s + 2 + length [0x07 :: byte]) = Some 0x12"
    by (simp add: scripted_def)
  have 7: "(4 :: nat) = pos ?s + length [0x07 :: byte] + 3" by simp
  have 8: "\<forall>j<length ([] :: byte list). rx ?s (4 + 6 + j) = Some ([] ! j)" by simp
  have 9: "(0x12 :: byte) \<notin> set []" by simp
  have 10: "rx ?s (4 + 6 + length ([] :: byte list)) = None"
    by (simp add: scripted_def)
  show ?thesis
    using run_start_sequence_trace [OF len bytes 3 4 5 _ 7 8 9 10 _ refl]
    by (simp add: scripted_def)
qed

section \<open>A capture that times out\<close>

lemma stop_and_query_prefix:
  assumes "\<forall>j<length skipped. rx s (pos s + 1 + j) = Some (skipped ! j)"
    and "0x12 \<notin> set skipped"
    and "rx s (pos s + 1 + length skipped) = r"
    and "r = None \<or> r = Some 0x12"
  shows "statements [do_write 0x64, do_read, do_write 0x2B, do_poll 0x12, do_write 0x0A] s =
    Some (Inr (s\<lparr>pos := pos s + length skipped + 2,
      trace := trace s @ [Write 0x64, Read (rx s (pos s)), Write 0x2B]
        @ map (Read \<circ> Some) skipped @ [Read r, Write 0x0A]\<rparr>))"
proof -
  let ?s2 = "s\<lparr>pos := Suc (pos s),
    trace := trace s @ [Write 0x64, Read (rx s (pos s)), Write 0x2B]\<rparr>"
  have a: "statements [do_write 0x64, do_read, do_write 0x2B, do_poll 0x12, do_write 0x0A] s
      = statements [do_poll 0x12, do_write 0x0A] ?s2"
    by (simp add: statements_write statements_read del: statements.simps)
  have 1: "\<forall>j<length skipped. rx ?s2 (pos ?s2 + j) = Some (skipped ! j)"
    using assms(1) by simp
  have 3: "rx ?s2 (pos ?s2 + length skipped) = r"
    using assms(3) by simp
  have b: "statements [do_poll 0x12, do_write 0x0A] ?s2
      = statements [do_write 0x0A]
          (?s2\<lparr>pos := pos ?s2 + length skipped + 1,
             trace := trace ?s2 @ map (Read \<circ> Some) skipped @ [Read r]\<rparr>)"
    by (rule statements_poll_reads [OF 1 assms(2) 3 assms(4)])
  show ?thesis
    unfolding a b by (simp add: statements_write del: statements.simps(2))
qed

text \<open>
  Claim C5: when one of the three capture reads of \<open>stop_and_query_field\<close> times out, the
  function returns the failure result; the decoding block does not run, and after the
  failed read nothing is written. Here the poll of the stop command reads \<open>skipped\<close> and
  then \<open>r\<close>, the first capture is read number \<open>c\<close>, and \<open>echoed\<close> are the bytes captured
  before the timeout: the trace ends with their reads and echoes and the read that
  timed out.
\<close>

theorem stop_and_query_field_capture_timeout:
  assumes "\<forall>j<length skipped. rx s (pos s + 1 + j) = Some (skipped ! j)"
    and "0x12 \<notin> set skipped"
    and "rx s (pos s + 1 + length skipped) = r"
    and "r = None \<or> r = Some 0x12"
    and c: "c = pos s + length skipped + 2"
    and timeout: "rx s c = None \<or> rx s (c + 1) = None \<or> rx s (c + 2) = None"
    and echoed: "echoed = map the (takeWhile (\<lambda>x. x \<noteq> None) [rx s c, rx s (c + 1), rx s (c + 2)])"
  shows "stop_and_query_field s =
      Some (Inr (Query_Failed,
        s\<lparr>pos := c + length echoed + 1,
          trace := trace s @ [Write 0x64, Read (rx s (pos s)), Write 0x2B]
            @ map (Read \<circ> Some) skipped @ [Read r, Write 0x0A]
            @ concat (map (\<lambda>b. [Read (Some b), Write b]) echoed) @ [Read None]\<rparr>)) \<and>
    length echoed < 3"
proof -
  note prefix = stop_and_query_prefix [OF assms(1-4), folded c]
  consider (first) "rx s c = None"
    | (second) b1 where "rx s c = Some b1" "rx s (c + 1) = None"
    | (third) b1 b2 where "rx s c = Some b1" "rx s (c + 1) = Some b2" "rx s (c + 2) = None"
    using timeout by (cases "rx s c"; cases "rx s (c + 1)") auto
  then show ?thesis
  proof cases
    case first
    then show ?thesis
      unfolding stop_and_query_field_def prefix echoed
      by (simp add: read_one_byte_def)
  next
    case second
    then show ?thesis
      unfolding stop_and_query_field_def prefix echoed
      by (simp add: read_one_byte_def)
  next
    case third
    then show ?thesis
      unfolding stop_and_query_field_def prefix echoed
      by (simp add: read_one_byte_def numeral_2_eq_2)
  qed
qed

theorem stop_and_query_field_capture_timeout_witness:
  "stop_and_query_field
      \<lparr>rx = scripted [Some 0x00, Some 0x12, Some 0x00, Some 0xDE], pos = 0, trace = []\<rparr> =
    Some (Inr (Query_Failed,
      \<lparr>rx = scripted [Some 0x00, Some 0x12, Some 0x00, Some 0xDE], pos = 5,
        trace = [Write 0x64, Read (Some 0x00), Write 0x2B, Read (Some 0x12), Write 0x0A,
          Read (Some 0x00), Write 0x00, Read (Some 0xDE), Write 0xDE, Read None]\<rparr>))"
proof -
  let ?s = "\<lparr>rx = scripted [Some 0x00, Some 0x12, Some 0x00, Some 0xDE], pos = 0, trace = []\<rparr>"
  have 1: "\<forall>j<length ([] :: byte list). rx ?s (pos ?s + 1 + j) = Some ([] ! j)" by simp
  have 2: "(0x12 :: byte) \<notin> set []" by simp
  have 3: "rx ?s (pos ?s + 1 + length ([] :: byte list)) = Some 0x12"
    by (simp add: scripted_def)
  have 5: "(2 :: nat) = pos ?s + length ([] :: byte list) + 2" by simp
  have 6: "rx ?s 2 = None \<or> rx ?s (2 + 1) = None \<or> rx ?s (2 + 2) = None"
    by (simp add: scripted_def)
  have 7: "[0x00, 0xDE] = map the (takeWhile (\<lambda>x. x \<noteq> None) [rx ?s 2, rx ?s (2 + 1), rx ?s (2 + 2)])"
    by (simp add: scripted_def)
  show ?thesis
    using stop_and_query_field_capture_timeout [OF 1 2 3 _ 5 6 7]
    by (simp add: scripted_def)
qed

section \<open>The field decoder\<close>

lemma fl_round_ten: "fl_round 10 = 10"
  by code_simp

lemma fl_round_22_2: "fl_round (222 / 10) = 6248744482976563 / 281474976710656"
  by code_simp

lemma disjoint_low_byte: "push_bit 8 (a :: int) AND take_bit 8 b = 0"
  by (auto simp: bit_eq_iff bit_simps)

lemma raw_magnitude_eq:
  "push_bit 8 (uint byte1) OR uint byte2 = 256 * uint byte1 + uint (byte2 :: byte)"
proof -
  have "uint byte2 = take_bit 8 (uint byte2)"
    using uint_bounded [of byte2] by (simp add: take_bit_int_eq_self)
  then have "push_bit 8 (uint byte1) AND uint byte2 = 0"
    using disjoint_low_byte [of "uint byte1" "uint byte2"] by simp
  then have "push_bit 8 (uint byte1) + uint byte2 = push_bit 8 (uint byte1) OR uint byte2"
    by (rule disjunctive_add_eq_or)
  then show ?thesis by (simp add: push_bit_eq_mult)
qed

text \<open>
  Claim C6: the decoder returns \<open>((byte1 << 8) | byte2) / 10.0\<close>, a float division of the
  16-bit magnitude, negated exactly when \<open>byte3 == 0x01\<close>; on \<open>(0x00, 0xDE, 0x00)\<close> that is
  the float \<open>22.2\<close>, which is \<open>6248744482976563 / 2 ^ 48\<close>, and on \<open>(0x00, 0xDE, 0x01)\<close>
  its negative.
\<close>

theorem decode_field_value:
  "decode_field byte1 byte2 byte3 =
     Field ((if byte3 = 0x01 then - 1 else 1)
       * fl_round (of_int (256 * uint byte1 + uint byte2) / 10)) \<and>
   decode_field 0x00 0xDE 0x00 = Field (fl_round (222 / 10)) \<and>
   decode_field 0x00 0xDE 0x01 = Field (- fl_round (222 / 10)) \<and>
   fl_round (222 / 10) = 6248744482976563 / 2 ^ 48"
proof -
  have general: "decode_field b1 b2 b3 =
     Field ((if b3 = 0x01 then - 1 else 1) * fl_round (of_int (256 * uint b1 + uint b2) / 10))"
    for b1 b2 b3
    unfolding decode_field_def Let_def raw_magnitude_eq fl_round_ten by simp
  have 1: "decode_field 0x00 0xDE 0x00 = Field (fl_round (222 / 10))"
    unfolding general by simp
  have 2: "decode_field 0x00 0xDE 0x01 = Field (- fl_round (222 / 10))"
    unfolding general by simp
  have 3: "fl_round (222 / 10) = 6248744482976563 / 2 ^ 48"
    unfolding fl_round_22_2 by simp
  from general 1 2 3 show ?thesis by blast
qed

section \<open>Construction\<close>

text \<open>
  Claim C10, as stated, says that every construction raises an attribute error. When
  \<open>pyvisa.ResourceManager()\<close> itself raises, here a \<open>ValueError\<close>, \<open>__init__\<close> ends with
  that error before it reaches \<open>self.coonect()\<close>.
\<close>

theorem controller_init_other_error:
  "controller_init (Inl ValueError) returns_self ''ASRL5::INSTR'' = Inl ValueError"
  by (simp add: controller_init_def)

text \<open>
  Claim C10, amended: constructing the controller always fails. For every
  \<open>resource_name\<close>, once the resource manager is made, \<open>__init__\<close> raises
  \<open>AttributeError\<close> at the lookup of \<open>coonect\<close>, whatever a found method would do; and
  if the resource manager cannot be made, the construction fails with that error. No
  instance is returned.
\<close>

theorem controller_init_fails:
  "controller_init (Inr ()) call resource_name = Inl (AttributeError ''coonect'') \<and>
   (\<exists>e. controller_init resource_manager call resource_name = Inl e)"
proof -
  have lookup: "getattr
      [(''resource_name'', Str resource_name), (''baud_rate'', Num 19200), (''inst'', PyNone),
       (''rm'', Resource_Manager)] ''coonect'' = Inl (AttributeError ''coonect'')"
    by (simp add: getattr_def class_attributes_def)
  have 1: "controller_init (Inr u) call resource_name = Inl (AttributeError ''coonect'')" for u
    by (simp add: controller_init_def lookup)
  have 2: "\<exists>e. controller_init resource_manager call resource_name = Inl e"
  proof (cases resource_manager)
    case (Inl e)
    then show ?thesis by (simp add: controller_init_def)
  next
    case (Inr u)
    then show ?thesis using 1 by simp
  qed
  from 1 2 show ?thesis by blast
qed

section \<open>\<open>pulse\<close>\<close>








end
